theory Spec2Isabelle
  imports Complex_Main "HOL-Library.FSet"
begin

section \<open>Python strings and values\<close>

text \<open>
  The scripts work on Python \<open>str\<close> values. They are modelled as \<open>string\<close>, one
  \<open>char\<close> per code point, for ASCII text: the character classes below are the ASCII part
  of \<open>str.isspace\<close>, of the regular expression classes \<open>\s\<close> and \<open>\w\<close> and of
  \<open>str.lower\<close>. Code points from 128 on are treated as neither space nor word character.
\<close>

definition is_space :: "char \<Rightarrow> bool" where
  "is_space c \<longleftrightarrow> (let n = (of_char c :: nat) in (9 \<le> n \<and> n \<le> 13) \<or> (28 \<le> n \<and> n \<le> 32))"

definition is_digit :: "char \<Rightarrow> bool" where
  "is_digit c \<longleftrightarrow> (let n = (of_char c :: nat) in 48 \<le> n \<and> n \<le> 57)"

definition is_upper :: "char \<Rightarrow> bool" where
  "is_upper c \<longleftrightarrow> (let n = (of_char c :: nat) in 65 \<le> n \<and> n \<le> 90)"

definition is_lower :: "char \<Rightarrow> bool" where
  "is_lower c \<longleftrightarrow> (let n = (of_char c :: nat) in 97 \<le> n \<and> n \<le> 122)"

text \<open>The class \<open>\w\<close>: letters, digits and the underscore.\<close>

definition is_word :: "char \<Rightarrow> bool" where
  "is_word c \<longleftrightarrow> is_digit c \<or> is_upper c \<or> is_lower c \<or> c = CHR ''_''"

definition lower_char :: "char \<Rightarrow> char" where
  "lower_char c = (if is_upper c then char_of (of_char c + (32::nat)) else c)"

text \<open>\<open>s.lower()\<close>\<close>

definition lower :: "string \<Rightarrow> string" where
  "lower s = map lower_char s"

text \<open>\<open>s.strip()\<close>\<close>

definition strip :: "string \<Rightarrow> string" where
  "strip s = rev (dropWhile is_space (rev (dropWhile is_space s)))"

text \<open>\<open>s.rstrip(chars)\<close>\<close>

definition rstrip_chars :: "string \<Rightarrow> string \<Rightarrow> string" where
  "rstrip_chars chars s = rev (dropWhile (\<lambda>c. c \<in> set chars) (rev s))"

text \<open>
  Splitting at every character of a class, empty pieces kept: \<open>s.split('-')\<close> is
  \<open>split_on (\<lambda>c. c = CHR ''-'') s\<close> and \<open>re.split('[,;]', s)\<close> is
  \<open>split_on (\<lambda>c. c = CHR '','' \<or> c = CHR '';'') s\<close>. The result is never the empty list.
\<close>

fun split_on :: "(char \<Rightarrow> bool) \<Rightarrow> string \<Rightarrow> string list" where
  "split_on sep [] = [[]]"
| "split_on sep (c # cs) =
     (if sep c then [] # split_on sep cs
      else (case split_on sep cs of w # ws \<Rightarrow> (c # w) # ws | [] \<Rightarrow> [[c]]))"

text \<open>\<open>s.split()\<close>: the maximal runs of non-space characters.\<close>

definition split_ws :: "string \<Rightarrow> string list" where
  "split_ws s = filter (\<lambda>w. w \<noteq> []) (split_on is_space s)"

definition digit_char :: "nat \<Rightarrow> char" where
  "digit_char d = char_of (48 + d)"

text \<open>\<open>str(n)\<close> for a natural number and for an integer.\<close>

fun str_nat :: "nat \<Rightarrow> string" where
  "str_nat n = (if n < 10 then [digit_char n] else str_nat (n div 10) @ [digit_char (n mod 10)])"

declare str_nat.simps [simp del]

definition str_int :: "int \<Rightarrow> string" where
  "str_int i = (if i < 0 then CHR ''-'' # str_nat (nat (- i)) else str_nat (nat i))"

text \<open>
  Slices. A negative bound counts from the end and every bound is clamped to the string:
  \<open>s[a:b]\<close> is \<open>slice s a b\<close> and \<open>s[:k]\<close> is \<open>slice_to s k\<close>.
\<close>

definition norm_index :: "string \<Rightarrow> int \<Rightarrow> nat" where
  "norm_index s i = (if i < 0 then nat (int (length s) + i) else min (nat i) (length s))"

definition slice :: "string \<Rightarrow> int \<Rightarrow> int \<Rightarrow> string" where
  "slice s a b = take (norm_index s b - norm_index s a) (drop (norm_index s a) s)"

definition slice_to :: "string \<Rightarrow> int \<Rightarrow> string" where
  "slice_to s k = take (norm_index s k) s"

text \<open>
  \<open>s.find(sub, start)\<close>: the lowest index from \<open>start\<close> on at which \<open>sub\<close> begins,
  and \<open>-1\<close> when there is none.
\<close>

fun find_at :: "string \<Rightarrow> string \<Rightarrow> nat \<Rightarrow> int" where
  "find_at sub [] i = (if sub = [] then int i else - 1)"
| "find_at sub (c # cs) i =
     (if take (length sub) (c # cs) = sub then int i else find_at sub cs (i + 1))"

definition py_find :: "string \<Rightarrow> string \<Rightarrow> int \<Rightarrow> int" where
  "py_find s sub start =
     (let i = (if start < 0 then nat (int (length s) + start) else nat start)
      in if i \<le> length s then find_at sub (drop i s) i else - 1)"

definition NL :: string where
  "NL = [CHR 0x0A]"

text \<open>\<open>s.replace(c, r)\<close> for a single character \<open>c\<close>.\<close>

definition replace_char :: "char \<Rightarrow> string \<Rightarrow> string \<Rightarrow> string" where
  "replace_char c r s = concat (map (\<lambda>x. if x = c then r else [x]) s)"

datatype exn = ValueError | TypeError | IndexError | KeyError string | OSError | APIError string exn





text \<open>
  The values of a decoded JSON response. Floats are the finite ones, as real numbers.
\<close>

datatype pyval =
    PNone
  | PBool bool
  | PInt int
  | PFloat real
  | PStr string
  | PList "pyval list"
  | PDict "(string \<times> pyval) list"

fun truthy :: "pyval \<Rightarrow> bool" where
  "truthy PNone = False"
| "truthy (PBool b) = b"
| "truthy (PInt i) = (i \<noteq> 0)"
| "truthy (PFloat r) = (r \<noteq> 0)"
| "truthy (PStr s) = (s \<noteq> [])"
| "truthy (PList xs) = (xs \<noteq> [])"
| "truthy (PDict kvs) = (kvs \<noteq> [])"

text \<open>\<open>isinstance(v, str)\<close>\<close>

definition is_str :: "pyval \<Rightarrow> bool" where
  "is_str v = (case v of PStr s \<Rightarrow> True | _ \<Rightarrow> False)"

text \<open>\<open>a or b\<close>\<close>

definition py_or :: "pyval \<Rightarrow> pyval \<Rightarrow> pyval" where
  "py_or a b = (if truthy a then a else b)"

text \<open>\<open>entry.get(k)\<close> on a dictionary given by its items (a later item for a key wins).\<close>

definition dict_get :: "(string \<times> pyval) list \<Rightarrow> string \<Rightarrow> pyval" where
  "dict_get entry k = (case map_of (rev entry) k of None \<Rightarrow> PNone | Some v \<Rightarrow> v)"


section \<open>The citation key generator\<close>

text \<open>
  \<open>clean_bibtex_key\<close>, first half: the base key from authors, title and year. An absent
  or empty author string, as every falsy value, gives \<open>unknown\<close>.
\<close>

definition last_name_of :: "string option \<Rightarrow> string" where
  "last_name_of authors =
     (case authors of
        None \<Rightarrow> ''unknown''
      | Some a \<Rightarrow>
          if a = [] then ''unknown''
          else (let author_parts = split_on (\<lambda>c. c = CHR '','' \<or> c = CHR '';'') (strip a);
                    first_author = strip (hd author_parts)
                in if first_author \<noteq> [] then last (split_ws first_author) else ''unknown''))"

definition first_word_of :: "string \<Rightarrow> string" where
  "first_word_of title =
     (if title \<noteq> [] then
        (let clean_title = filter (\<lambda>c. is_word c \<or> is_space c) (lower title);
             words = split_ws clean_title
         in if words \<noteq> [] then hd words else ''unknown'')
      else ''unknown'')"

definition year_part_of :: "int option \<Rightarrow> string" where
  "year_part_of year = (case year of None \<Rightarrow> ''unknown'' | Some y \<Rightarrow> if y \<noteq> 0 then str_int y else ''unknown'')"

definition base_key_of :: "string \<Rightarrow> string option \<Rightarrow> int option \<Rightarrow> string" where
  "base_key_of title authors year =
     take 50 (filter is_word (last_name_of authors @ year_part_of year @ first_word_of title))"

text \<open>The key tried for a suffix: \<open>base_key + str(suffix)\<close>, the base cut when that is too long.\<close>

definition suffixed :: "string \<Rightarrow> nat \<Rightarrow> string" where
  "suffixed base_key suffix =
     (let suffix_key = base_key @ str_nat suffix
      in if length suffix_key \<le> 50 then suffix_key
         else (let max_base_length = 50 - int (length (str_nat suffix))
               in slice_to base_key max_base_length @ str_nat suffix))"

text \<open>
  Second half: the \<open>while key in existing_keys\<close> loop. The state is the current
  \<open>key\<close> and the next \<open>suffix\<close>; Python's integers are unbounded, so the suffix is a
  natural number, and the registry is a finite set.
\<close>

function key_loop :: "string \<Rightarrow> string fset \<Rightarrow> string \<Rightarrow> nat \<Rightarrow> string" where
  "key_loop base_key existing_keys key suffix =
     (if key |\<in>| existing_keys
      then key_loop base_key existing_keys (suffixed base_key suffix) (suffix + 1)
      else key)"
  by pat_completeness auto

definition clean_bibtex_key ::
  "string \<Rightarrow> string option \<Rightarrow> int option \<Rightarrow> string option \<Rightarrow> string fset option \<Rightarrow> string" where
  "clean_bibtex_key title authors year doi existing_keys =
     (let base_key = base_key_of title authors year;
          existing_keys = (case existing_keys of None \<Rightarrow> {||} | Some ks \<Rightarrow> ks)
      in key_loop base_key existing_keys base_key 1)"

text \<open>
  The call as its caller sees it: the key returned and the registry after the call. The
  set is passed by reference, and no statement of the function adds to it or removes
  from it.
\<close>

definition clean_bibtex_key_call ::
  "string \<Rightarrow> string option \<Rightarrow> int option \<Rightarrow> string option \<Rightarrow> string fset \<Rightarrow> string \<times> string fset" where
  "clean_bibtex_key_call title authors year doi existing_keys =
     (clean_bibtex_key title authors year doi (Some existing_keys), existing_keys)"

section \<open>Papers\<close>

text \<open>
  A paper as the normalizers build it: every key is present, \<open>None\<close> stands for a missing
  value. The source key \<open>citedby-count\<close> is the field \<open>citedby_count\<close>.
\<close>

record paper =
  doi :: "string option"
  title :: string
  authors :: "string option"
  year :: "int option"
  publicationName :: "string option"
  url :: "string option"
  citedby_count :: int

text \<open>A paper with the given DOI and title and no other data, for examples.\<close>

definition sample_paper :: "string option \<Rightarrow> string \<Rightarrow> paper" where
  "sample_paper d t =
     \<lparr>doi = d, title = t, authors = None, year = None, publicationName = None, url = None,
      citedby_count = 0\<rparr>"

section \<open>The field normalizer\<close>



text \<open>The title read from the source: \<open>entry.get("title") or entry.get("dc:title")\<close>.\<close>

definition raw_title :: "(string \<times> pyval) list \<Rightarrow> pyval" where
  "raw_title entry = py_or (dict_get entry ''title'') (dict_get entry ''dc:title'')"

definition entry_title :: "(string \<times> pyval) list \<Rightarrow> string" where
  "entry_title entry =
     (case raw_title entry of
        PStr s \<Rightarrow> if s = [] then ''Unknown Title'' else strip s
      | _ \<Rightarrow> ''Unknown Title'')"











section \<open>The exporter\<close>

definition escape_braces :: "string \<Rightarrow> string" where
  "escape_braces s =
     replace_char (CHR ''}'') [CHR 0x5C, CHR ''}''] (replace_char (CHR ''{'') [CHR 0x5C, CHR ''{''] s)"

definition bib_field :: "string \<Rightarrow> string \<Rightarrow> string" where
  "bib_field name v = ''  '' @ name @ '' = {'' @ v @ ''},'' @ NL"

text \<open>The fields of one entry: each is written when its value is truthy.\<close>

definition entry_fields :: "paper \<Rightarrow> string" where
  "entry_fields p =
     (if title p \<noteq> [] then bib_field ''title'' (escape_braces (title p)) else [])
     @ (case authors p of Some a \<Rightarrow> if a \<noteq> [] then bib_field ''author'' (escape_braces a) else [] | None \<Rightarrow> [])
     @ (case year p of Some y \<Rightarrow> if y \<noteq> 0 then bib_field ''year'' (str_int y) else [] | None \<Rightarrow> [])
     @ (case publicationName p of Some j \<Rightarrow> if j \<noteq> [] then bib_field ''journal'' (escape_braces j) else [] | None \<Rightarrow> [])
     @ (case doi p of Some d \<Rightarrow> if d \<noteq> [] then bib_field ''doi'' d else [] | None \<Rightarrow> [])
     @ (case url p of Some u \<Rightarrow> if u \<noteq> [] then bib_field ''url'' u else [] | None \<Rightarrow> [])
     @ (if citedby_count p > 0 then bib_field ''note'' (''Citations: '' @ str_int (citedby_count p)) else [])"

definition paper_to_bibtex :: "paper \<Rightarrow> string fset option \<Rightarrow> string" where
  "paper_to_bibtex p existing_keys =
     (let key = clean_bibtex_key (title p) (authors p) (year p) (doi p) existing_keys;
          bibtex = ''@article{'' @ key @ '','' @ NL @ entry_fields p
      in rstrip_chars ('','' @ NL) bibtex @ NL @ ''}'' @ NL @ NL)"

text \<open>
  The body of the loop of \<open>save_bibtex\<close> after the entry is written: the key is read back
  from the entry text, between \<open>@article{\<close> and the first comma, and added to the registry.
\<close>

definition register_key :: "string \<Rightarrow> string fset \<Rightarrow> string fset" where
  "register_key bibtex_entry existing_keys =
     (let key_start = py_find bibtex_entry ''@article{'' 0 + 9;
          key_end = py_find bibtex_entry '','' key_start
      in if key_end \<noteq> - 1
         then finsert (slice bibtex_entry key_start key_end) existing_keys
         else existing_keys)"

text \<open>A text that is empty or ends as a written field does.\<close>

definition ends_field :: "string \<Rightarrow> bool" where
  "ends_field s \<longleftrightarrow> s = [] \<or> (\<exists>z. s = z @ ''},'' @ NL)"

text \<open>The loop over the papers; the state is the text written so far and the registry.\<close>

fun write_papers :: "paper list \<Rightarrow> string \<times> string fset \<Rightarrow> string \<times> string fset" where
  "write_papers [] st = st"
| "write_papers (p # ps) (f, existing_keys) =
     (let bibtex_entry = paper_to_bibtex p (Some existing_keys)
      in write_papers ps (f @ bibtex_entry, register_key bibtex_entry existing_keys))"

definition bibtex_header :: "string \<Rightarrow> nat \<Rightarrow> string" where
  "bibtex_header now n =
     ''% BibTeX entries generated from API'' @ NL
     @ ''% Generated on: '' @ now @ NL
     @ ''% Total papers: '' @ str_nat n @ NL @ NL"

text \<open>
  \<open>save_bibtex\<close> returns the text of the file it writes. \<open>can_write\<close> says whether the
  output path can be opened and written, \<open>now\<close> is the formatted time stamp. Any exception
  is raised again as \<open>APIError\<close>.
\<close>

definition save_bibtex :: "bool \<Rightarrow> string \<Rightarrow> paper list \<Rightarrow> exn + string" where
  "save_bibtex can_write now papers =
     (if \<not> can_write then Inl (APIError ''Failed to save BibTeX file'' OSError)
      else Inr (fst (write_papers papers (bibtex_header now (length papers), {||}))))"

section \<open>The deduplicator\<close>

text \<open>
  The exact pass, in \<open>save_results_to_csv\<close>. The data frame built from a list of papers
  has their keys as columns, and no column at all when the list is empty; reading the
  column \<open>doi\<close> then raises \<open>KeyError\<close>.
\<close>

definition columns_of :: "paper list \<Rightarrow> string list" where
  "columns_of papers =
     (if papers = [] then []
      else [''doi'', ''title'', ''authors'', ''year'', ''publicationName'', ''url'', ''citedby-count''])"

text \<open>\<open>drop_duplicates(subset='doi')\<close>: a row is kept when no earlier row has its value.\<close>

fun drop_duplicates :: "string option list \<Rightarrow> paper list \<Rightarrow> paper list" where
  "drop_duplicates seen [] = []"
| "drop_duplicates seen (p # ps) =
     (if doi p \<in> set seen then drop_duplicates seen ps
      else p # drop_duplicates (doi p # seen) ps)"

text \<open>
  \<open>save_results_to_csv\<close> returns the frame \<open>final_df\<close>, whose rows it has written to the
  file under a header row of the columns. Any exception is raised again as \<open>APIError\<close>.
\<close>

definition save_results_to_csv :: "bool \<Rightarrow> paper list \<Rightarrow> exn + paper list" where
  "save_results_to_csv can_write papers =
     (if ''doi'' \<notin> set (columns_of papers)
      then Inl (APIError ''Failed to save CSV file'' (KeyError ''doi''))
      else (let df_with_doi = filter (\<lambda>p. doi p \<noteq> None) papers;
                df_without_doi = filter (\<lambda>p. doi p = None) papers;
                final_df = drop_duplicates [] df_with_doi @ df_without_doi
            in if \<not> can_write then Inl (APIError ''Failed to save CSV file'' OSError)
               else Inr final_df))"

text \<open>
  The similarity pass, \<open>remove_duplicates\<close>. The matrix \<open>similarity_matrix\<close> is what the
  library returns for the titles of the frame (TF-IDF vectors, then cosine similarity):
  it is a parameter here, with real numbers as its entries, and what the library does
  when it cannot build the vectors is outside the model. The frame is the list of its
  rows, with the default index \<open>0, 1, ...\<close>. The two nested \<open>for\<close> loops collect the
  list \<open>duplicates\<close>.
\<close>

fun scan_row :: "real list \<Rightarrow> nat list \<Rightarrow> nat list \<Rightarrow> exn + nat list" where
  "scan_row row [] duplicates = Inr duplicates"
| "scan_row row (j # js) duplicates =
     (if j < length row
      then scan_row row js (if row ! j > 0.8 then duplicates @ [j] else duplicates)
      else Inl IndexError)"

fun scan_rows :: "real list list \<Rightarrow> nat list \<Rightarrow> nat list \<Rightarrow> exn + nat list" where
  "scan_rows similarity_matrix [] duplicates = Inr duplicates"
| "scan_rows similarity_matrix (i # is) duplicates =
     (case scan_row (similarity_matrix ! i) [i + 1 ..< length similarity_matrix] duplicates of
        Inl e \<Rightarrow> Inl e
      | Inr duplicates' \<Rightarrow> scan_rows similarity_matrix is duplicates')"

definition find_duplicates :: "real list list \<Rightarrow> exn + nat list" where
  "find_duplicates similarity_matrix =
     scan_rows similarity_matrix [0 ..< length similarity_matrix] []"

text \<open>\<open>df.drop(df.index[duplicates]).reset_index(drop=True)\<close>\<close>

definition drop_rows :: "'a list \<Rightarrow> nat list \<Rightarrow> exn + 'a list" where
  "drop_rows df duplicates =
     (if \<forall>j \<in> set duplicates. j < length df
      then Inr (map (\<lambda>k. df ! k) (filter (\<lambda>k. k \<notin> set duplicates) [0 ..< length df]))
      else Inl IndexError)"

definition remove_duplicates :: "real list list \<Rightarrow> 'a list \<Rightarrow> exn + 'a list" where
  "remove_duplicates similarity_matrix df =
     (case find_duplicates similarity_matrix of
        Inl e \<Rightarrow> Inl e
      | Inr duplicates \<Rightarrow> drop_rows df duplicates)"

text \<open>The matrix of a frame of \<open>n\<close> rows is \<open>n\<close> by \<open>n\<close>.\<close>

definition square :: "nat \<Rightarrow> real list list \<Rightarrow> bool" where
  "square n m \<longleftrightarrow> length m = n \<and> (\<forall>row \<in> set m. length row = n)"

section \<open>Termination of the key loop\<close>

text \<open>
  A registry is finite, and the key tried for a suffix is at least as long as the suffix
  written out. So a suffix beyond ten to the length of the longest registered key gives
  an unused key, and the loop stops.
\<close>

lemma length_str_nat_gt: "10 ^ L \<le> n \<Longrightarrow> L < length (str_nat n)"
proof (induction L arbitrary: n)
  case 0
  then show ?case by (subst str_nat.simps) simp
next
  case (Suc L)
  then have "10 ^ L \<le> n div 10" by (simp add: less_eq_div_iff_mult_less_eq)
  from Suc.IH[OF this] have "L < length (str_nat (n div 10))" .
  moreover have "(10::nat) \<le> 10 ^ Suc L" by simp
  with Suc.prems have "\<not> n < 10" by linarith
  ultimately show ?case by (subst str_nat.simps) simp
qed

lemma length_suffixed_ge: "length (str_nat s) \<le> length (suffixed b s)"
  by (simp add: suffixed_def Let_def)

lemma suffixed_in_bound:
  assumes "suffixed b s |\<in>| ks"
  shows "s < 10 ^ Max (insert 0 (length ` fset ks))"
proof (rule ccontr)
  let ?L = "Max (insert 0 (length ` fset ks))"
  assume "\<not> s < 10 ^ ?L"
  then have "10 ^ ?L \<le> s" by simp
  then have "?L < length (str_nat s)" by (rule length_str_nat_gt)
  also have "\<dots> \<le> length (suffixed b s)" by (rule length_suffixed_ge)
  finally have "?L < length (suffixed b s)" .
  moreover have "length (suffixed b s) \<in> insert 0 (length ` fset ks)"
    using assms by auto
  then have "length (suffixed b s) \<le> ?L"
    by (intro Max_ge) simp_all
  ultimately show False by linarith
qed

termination key_loop
proof (relation "measure (\<lambda>(b, ks, k, s).
          if k |\<in>| ks then Suc (Suc (10 ^ Max (insert 0 (length ` fset ks))) - s) else 0)")
  show "wf (measure (\<lambda>(b, ks, k, s).
          if k |\<in>| ks then Suc (Suc (10 ^ Max (insert 0 (length ` fset ks))) - s) else 0))"
    by simp
next
  fix base_key :: string and existing_keys :: "string fset" and key :: string and suffix :: nat
  assume "key |\<in>| existing_keys"
  then show "((base_key, existing_keys, suffixed base_key suffix, suffix + 1),
              (base_key, existing_keys, key, suffix))
     \<in> measure (\<lambda>(b, ks, k, s).
          if k |\<in>| ks then Suc (Suc (10 ^ Max (insert 0 (length ` fset ks))) - s) else 0)"
    using suffixed_in_bound[of base_key suffix existing_keys] by auto
qed

declare key_loop.simps [simp del]

section \<open>Properties of the field normalizer\<close>

lemma split_on_not_Nil: "split_on sep s \<noteq> []"
  by (induction s) (auto split: list.splits)






lemma strip_not_empty: "\<exists>c \<in> set s. \<not> is_space c \<Longrightarrow> strip s \<noteq> []"
proof -
  assume "\<exists>c \<in> set s. \<not> is_space c"
  then have "dropWhile is_space s \<noteq> []" by (simp add: dropWhile_eq_Nil_conv)
  then have "\<exists>c \<in> set (rev (dropWhile is_space s)). \<not> is_space c"
    by (metis hd_dropWhile hd_in_set set_rev)
  then have "dropWhile is_space (rev (dropWhile is_space s)) \<noteq> []"
    by (simp add: dropWhile_eq_Nil_conv)
  then show ?thesis by (simp add: strip_def)
qed

lemma entry_title_cases:
  "(\<not> is_str (raw_title entry) \<or> raw_title entry = PStr [] \<longrightarrow> entry_title entry = ''Unknown Title'')
   \<and> (raw_title entry = PStr s \<and> s \<noteq> [] \<longrightarrow> entry_title entry = strip s)
   \<and> (raw_title entry = PStr s \<and> (\<exists>c \<in> set s. \<not> is_space c) \<longrightarrow> entry_title entry \<noteq> [])"
proof -
  have "entry_title entry \<noteq> []" if "raw_title entry = PStr s" "\<exists>c \<in> set s. \<not> is_space c"
  proof -
    from that(2) have "s \<noteq> []" by auto
    with that show ?thesis by (simp add: entry_title_def strip_not_empty)
  qed
  then show ?thesis
    by (auto simp: entry_title_def is_str_def split: pyval.splits)
qed

text \<open>
  C7, at the input where the code leaves the claim: a title made of blanks only is a
  non-empty string, so it is not replaced by the sentinel, and trimming it leaves the
  empty string as the title of the paper.
\<close>

theorem blank_title_is_empty:
  "entry_title [(''title'', PStr ''   '')] = []"
  by (simp add: entry_title_def raw_title_def py_or_def dict_get_def strip_def is_space_def)





section \<open>Properties of the similarity pass\<close>

lemma scan_row_eq:
  "\<forall>j \<in> set js. j < length row \<Longrightarrow>
   scan_row row js ds = Inr (ds @ filter (\<lambda>j. row ! j > 0.8) js)"
  by (induction js arbitrary: ds) auto

lemma scan_rows_eq:
  "\<forall>i \<in> set is. length (m ! i) = length m \<Longrightarrow>
   scan_rows m is ds =
     Inr (ds @ concat (map (\<lambda>i. filter (\<lambda>j. m ! i ! j > 0.8) [i + 1 ..< length m]) is))"
proof (induction "is" arbitrary: ds)
  case Nil
  then show ?case by simp
next
  case (Cons i "is")
  have "scan_row (m ! i) [i + 1 ..< length m] ds =
          Inr (ds @ filter (\<lambda>j. m ! i ! j > 0.8) [i + 1 ..< length m])"
    using Cons.prems by (intro scan_row_eq) simp
  then show ?case using Cons by simp
qed

lemma find_duplicates_eq:
  assumes "square n m"
  shows "find_duplicates m =
           Inr (concat (map (\<lambda>i. filter (\<lambda>j. m ! i ! j > 0.8) [i + 1 ..< n]) [0 ..< n]))"
proof -
  from assms have len: "length m = n" and "\<forall>i \<in> set [0 ..< length m]. length (m ! i) = length m"
    by (auto simp: square_def)
  then show ?thesis
    unfolding find_duplicates_def by (simp add: scan_rows_eq del: upt_Suc)
qed

lemma set_duplicates:
  fixes m :: "real list list"
  shows "set (concat (map (\<lambda>i. filter (\<lambda>j. m ! i ! j > 0.8) [i + 1 ..< n]) [0 ..< n]))
     = {j. j < n \<and> (\<exists>i<j. m ! i ! j > 0.8)}"
proof (intro set_eqI iffI)
  fix j assume "j \<in> set (concat (map (\<lambda>i. filter (\<lambda>j. m ! i ! j > 0.8) [i + 1 ..< n]) [0 ..< n]))"
  then obtain i where "i < j" "j < n" "m ! i ! j > 0.8" by (auto simp: Suc_le_eq)
  then show "j \<in> {j. j < n \<and> (\<exists>i<j. m ! i ! j > 0.8)}" by blast
next
  fix j assume "j \<in> {j. j < n \<and> (\<exists>i<j. m ! i ! j > 0.8)}"
  then obtain i where i: "j < n" "i < j" "m ! i ! j > 0.8" by blast
  then have "i \<in> set [0 ..< n]" "j \<in> set (filter (\<lambda>j. m ! i ! j > 0.8) [i + 1 ..< n])" by auto
  then show "j \<in> set (concat (map (\<lambda>i. filter (\<lambda>j. m ! i ! j > 0.8) [i + 1 ..< n]) [0 ..< n]))"
    unfolding set_concat set_map by blast
qed

lemma remove_duplicates_eq:
  assumes "square (length df) m"
  shows "remove_duplicates m df =
           Inr (map (\<lambda>k. df ! k) (filter (\<lambda>j. \<not> (\<exists>i<j. m ! i ! j > 0.8)) [0 ..< length df]))"
proof -
  let ?ds = "concat (map (\<lambda>i. filter (\<lambda>j. m ! i ! j > 0.8) [i + 1 ..< length df]) [0 ..< length df])"
  have s: "set ?ds = {j. j < length df \<and> (\<exists>i<j. m ! i ! j > 0.8)}" by (rule set_duplicates)
  have f: "filter (\<lambda>k. k \<notin> set ?ds) [0 ..< length df]
             = filter (\<lambda>j. \<not> (\<exists>i<j. m ! i ! j > 0.8)) [0 ..< length df]"
    unfolding s by (rule filter_cong) auto
  have "drop_rows df ?ds = Inr (map (\<lambda>k. df ! k) (filter (\<lambda>k. k \<notin> set ?ds) [0 ..< length df]))"
    unfolding drop_rows_def s by simp
  then show ?thesis
    unfolding remove_duplicates_def find_duplicates_eq[OF assms] f by simp
qed


text \<open>
  C3: on a frame whose similarity matrix is given, the pass keeps the row at index \<open>j\<close>
  exactly when no index \<open>i < j\<close> has a similarity above 0.8 with it: the later row of
  every such pair is dropped, whether or not the earlier one is dropped too. So for three
  rows A, B, C with A, B and B, C above the threshold and A, C not above it, B and C are
  dropped and A alone is kept.
\<close>

theorem similarity_pass_drops_later_of_pair:
  assumes "square (length df) m"
  shows "remove_duplicates m df =
           Inr (map (\<lambda>k. df ! k) (filter (\<lambda>j. \<not> (\<exists>i<j. m ! i ! j > 0.8)) [0 ..< length df]))
         \<and> (df = [A, B, C] \<and> m ! 0 ! 1 > 0.8 \<and> m ! 1 ! 2 > 0.8 \<and> m ! 0 ! 2 \<le> 0.8
              \<longrightarrow> remove_duplicates m df = Inr [A])"
proof (intro conjI impI)
  show "remove_duplicates m df =
           Inr (map (\<lambda>k. df ! k) (filter (\<lambda>j. \<not> (\<exists>i<j. m ! i ! j > 0.8)) [0 ..< length df]))"
    using assms by (rule remove_duplicates_eq)
next
  assume h: "df = [A, B, C] \<and> m ! 0 ! 1 > 0.8 \<and> m ! 1 ! 2 > 0.8 \<and> m ! 0 ! 2 \<le> 0.8"
  have u: "[0 ..< length df] = [0, 1, 2]" using h by (simp add: upt_rec)
  have k1: "\<exists>i<1. m ! i ! 1 > 0.8" using h by auto
  have k2: "\<exists>i<2. m ! i ! 2 > 0.8" using h by (intro exI[of _ 1]) simp
  show "remove_duplicates m df = Inr [A]"
    unfolding remove_duplicates_eq[OF assms] u using h k1 k2 by simp
qed

theorem similarity_pass_drops_later_of_pair_witness:
  "square (length [''A'', ''B'', ''C'']) [[1, 0.9, 0.1], [0.9, 1, 0.85], [0.1, 0.85, 1]]
   \<and> remove_duplicates [[1, 0.9, 0.1], [0.9, 1, 0.85], [0.1, 0.85, 1]] [''A'', ''B'', ''C''] = Inr [''A'']"
proof -
  have h: "square (length [''A'', ''B'', ''C'']) [[1, 0.9, 0.1], [0.9, 1, 0.85], [0.1, 0.85, 1]]"
    by (simp add: square_def)
  from similarity_pass_drops_later_of_pair [OF h, THEN conjunct2, of "''A''" "''B''" "''C''"] h
  show ?thesis by simp
qed



section \<open>Properties of the exact pass\<close>

lemma drop_duplicates_subset: "set (drop_duplicates seen ps) \<subseteq> set ps"
  by (induction ps arbitrary: seen) auto

lemma drop_duplicates_dois:
  "set (map doi (drop_duplicates seen ps)) = set (map doi ps) - set seen"
  by (induction ps arbitrary: seen) auto

lemma drop_duplicates_distinct: "distinct (map doi (drop_duplicates seen ps))"
  by (induction ps arbitrary: seen) (auto simp: drop_duplicates_dois simp del: set_map)

lemma drop_duplicates_find:
  "d \<notin> set seen \<Longrightarrow>
   List.find (\<lambda>p. doi p = d) (drop_duplicates seen ps) = List.find (\<lambda>p. doi p = d) ps"
  by (induction ps arbitrary: seen) auto


lemma Suc_image_shift: "{j. Suc j \<in> Suc ` I} = I"
  by auto

lemma nths_Cons_skip: "nths (x # xs) (Suc ` I) = nths xs I"
  by (simp add: nths_Cons Suc_image_shift)

lemma nths_Cons_keep: "nths (x # xs) (insert 0 (Suc ` I)) = x # nths xs I"
  by (simp add: nths_Cons Suc_image_shift)

lemma with_doi_nths:
  "\<exists>I. drop_duplicates seen (filter (\<lambda>p. doi p \<noteq> None) ps) = nths ps I"
proof (induction ps arbitrary: seen)
  case Nil
  show ?case by simp
next
  case (Cons p ps)
  show ?case
  proof (cases "doi p \<noteq> None \<and> doi p \<notin> set seen")
    case True
    from Cons[of "doi p # seen"] obtain I
      where "drop_duplicates (doi p # seen) (filter (\<lambda>p. doi p \<noteq> None) ps) = nths ps I" by blast
    with True have "drop_duplicates seen (filter (\<lambda>p. doi p \<noteq> None) (p # ps))
                      = nths (p # ps) (insert 0 (Suc ` I))"
      by (simp only: nths_Cons_keep) simp
    then show ?thesis by blast
  next
    case False
    from Cons[of seen] obtain I
      where "drop_duplicates seen (filter (\<lambda>p. doi p \<noteq> None) ps) = nths ps I" by blast
    with False have "drop_duplicates seen (filter (\<lambda>p. doi p \<noteq> None) (p # ps))
                      = nths (p # ps) (Suc ` I)"
      by (simp only: nths_Cons_skip) auto
    then show ?thesis by blast
  qed
qed

lemma find_filter_implies:
  "(\<And>x. P x \<Longrightarrow> Q x) \<Longrightarrow> List.find P (filter Q xs) = List.find P xs"
  by (induction xs) auto

lemma find_append_none:
  "\<forall>x \<in> set ys. \<not> P x \<Longrightarrow> List.find P (xs @ ys) = List.find P xs"
  by (induction xs) (auto simp: find_None_iff)

lemma save_results_to_csv_eq:
  "papers \<noteq> [] \<Longrightarrow>
   save_results_to_csv True papers =
     Inr (drop_duplicates [] (filter (\<lambda>p. doi p \<noteq> None) papers) @ filter (\<lambda>p. doi p = None) papers)"
  by (simp add: save_results_to_csv_def columns_of_def)

text \<open>
  C1, as the code has it: for a non-empty list of papers the exact pass returns papers
  with a DOI first, in their input order, then all papers without one in their input
  order; among the papers with a DOI no DOI occurs twice, and for every DOI the paper kept is the first one
  of the input with that DOI. DOIs are compared as they are written: of two papers with a
  DOI, only the first is kept when the two DOIs are the same string, and both are kept
  when the strings differ, be it in letter case only.
\<close>

theorem exact_pass_keeps_first_per_doi:
  assumes "papers \<noteq> []"
  shows "\<exists>out. save_results_to_csv True papers = Inr out
           \<and> out = filter (\<lambda>p. doi p \<noteq> None) out @ filter (\<lambda>p. doi p = None) papers
           \<and> (\<exists>I. filter (\<lambda>p. doi p \<noteq> None) out = nths papers I)
           \<and> distinct (map doi (filter (\<lambda>p. doi p \<noteq> None) out))
           \<and> (\<forall>d. List.find (\<lambda>p. doi p = Some d) out = List.find (\<lambda>p. doi p = Some d) papers)
           \<and> (\<forall>p q. papers = [p, q] \<and> doi p \<noteq> None \<and> doi q \<noteq> None
                  \<longrightarrow> out = (if doi p = doi q then [p] else [p, q]))"
proof -
  let ?W = "drop_duplicates [] (filter (\<lambda>p. doi p \<noteq> None) papers)"
  let ?N = "filter (\<lambda>p. doi p = None) papers"
  have W: "\<forall>p \<in> set ?W. doi p \<noteq> None"
  proof
    fix p assume "p \<in> set ?W"
    then have "p \<in> set (filter (\<lambda>p. doi p \<noteq> None) papers)"
      using drop_duplicates_subset by blast
    then show "doi p \<noteq> None" by simp
  qed
  then have fW: "filter (\<lambda>p. doi p \<noteq> None) ?W = ?W" by (rule filter_True)
  have "\<forall>p \<in> set ?N. \<not> doi p \<noteq> None" by simp
  then have fN: "filter (\<lambda>p. doi p \<noteq> None) ?N = []" by (rule filter_False)
  have f: "filter (\<lambda>p. doi p \<noteq> None) (?W @ ?N) = ?W"
    unfolding filter_append fW fN by (rule append_Nil2)
  have fnd: "List.find (\<lambda>p. doi p = Some d) (?W @ ?N) = List.find (\<lambda>p. doi p = Some d) papers" for d
  proof -
    have "List.find (\<lambda>p. doi p = Some d) (?W @ ?N) = List.find (\<lambda>p. doi p = Some d) ?W"
      by (rule find_append_none) simp
    also have "\<dots> = List.find (\<lambda>p. doi p = Some d) (filter (\<lambda>p. doi p \<noteq> None) papers)"
      by (rule drop_duplicates_find) simp
    also have "\<dots> = List.find (\<lambda>p. doi p = Some d) papers"
      by (rule find_filter_implies) simp
    finally show ?thesis .
  qed
  have two: "?W @ ?N = (if doi p = doi q then [p] else [p, q])"
    if "papers = [p, q] \<and> doi p \<noteq> None \<and> doi q \<noteq> None" for p q
  proof -
    from that have "filter (\<lambda>p. doi p \<noteq> None) papers = [p, q]" "?N = []" by simp_all
    then show ?thesis by simp
  qed
  have d: "distinct (map doi (filter (\<lambda>p. doi p \<noteq> None) (?W @ ?N)))"
    unfolding f by (rule drop_duplicates_distinct)
  have o: "?W @ ?N = filter (\<lambda>p. doi p \<noteq> None) (?W @ ?N) @ ?N"
    unfolding f by (rule refl)
  have sub: "\<exists>I. filter (\<lambda>p. doi p \<noteq> None) (?W @ ?N) = nths papers I"
    unfolding f by (rule with_doi_nths)
  from save_results_to_csv_eq[OF assms] o sub d fnd two show ?thesis by blast
qed

theorem exact_pass_keeps_first_per_doi_witness:
  "[sample_paper (Some ''10.1/abc'') ''A Study of X'', sample_paper (Some ''10.1/abc'') ''A Study of X, again''] \<noteq> []
   \<and> save_results_to_csv True
         [sample_paper (Some ''10.1/abc'') ''A Study of X'', sample_paper (Some ''10.1/abc'') ''A Study of X, again'']
       = Inr [sample_paper (Some ''10.1/abc'') ''A Study of X'']"
proof -
  let ?p = "sample_paper (Some ''10.1/abc'') ''A Study of X''"
  let ?q = "sample_paper (Some ''10.1/abc'') ''A Study of X, again''"
  have ne: "[?p, ?q] \<noteq> []" by simp
  from exact_pass_keeps_first_per_doi [OF ne] obtain out
    where o: "save_results_to_csv True [?p, ?q] = Inr out"
      and two: "\<forall>p q. [?p, ?q] = [p, q] \<and> doi p \<noteq> None \<and> doi q \<noteq> None
                  \<longrightarrow> out = (if doi p = doi q then [p] else [p, q])"
    by blast
  from two [rule_format, of ?p ?q] have "out = [?p]" by (simp add: sample_paper_def)
  with o ne show ?thesis by simp
qed

text \<open>
  C1 as stated fails: two papers whose DOIs differ only in letter case are both kept.
\<close>

theorem exact_pass_case_sensitive_counterexample:
  "lower ''10.1/ABC'' = lower ''10.1/abc''
   \<and> save_results_to_csv True
         [sample_paper (Some ''10.1/ABC'') ''A Study of X'', sample_paper (Some ''10.1/abc'') ''A Study of X'']
       = Inr [sample_paper (Some ''10.1/ABC'') ''A Study of X'', sample_paper (Some ''10.1/abc'') ''A Study of X'']"
proof -
  have "lower ''10.1/ABC'' = lower ''10.1/abc''" by code_simp
  then show ?thesis
    by (simp add: save_results_to_csv_def columns_of_def sample_paper_def)
qed




section \<open>The sinks on an empty list\<close>

lemma str_nat_0: "str_nat 0 = ''0''"
  by code_simp

text \<open>
  C6, as the code has it: on an empty list of papers the bibliography sink succeeds and
  writes its three comment lines, with a total of 0, and no entry; the tabular sink
  raises \<open>APIError\<close>, since the empty frame has no column \<open>doi\<close>, and writes
  nothing.
\<close>

theorem empty_input_sinks:
  "save_bibtex True now [] =
     Inr (''% BibTeX entries generated from API'' @ NL
          @ ''% Generated on: '' @ now @ NL
          @ ''% Total papers: 0'' @ NL @ NL)
   \<and> save_results_to_csv can_write [] = Inl (APIError ''Failed to save CSV file'' (KeyError ''doi''))"
  by (simp add: save_bibtex_def bibtex_header_def str_nat_0 save_results_to_csv_def columns_of_def)

theorem empty_input_sinks_witness:
  "save_bibtex True ''2026-01-01 12:00:00'' [] =
     Inr (''% BibTeX entries generated from API'' @ NL
          @ ''% Generated on: 2026-01-01 12:00:00'' @ NL
          @ ''% Total papers: 0'' @ NL @ NL)
   \<and> save_results_to_csv True [] = Inl (APIError ''Failed to save CSV file'' (KeyError ''doi''))"
  using empty_input_sinks [of "''2026-01-01 12:00:00''" True] by simp

text \<open>C6 as stated fails: the tabular sink fails on the empty list.\<close>

theorem empty_input_csv_counterexample:
  "save_results_to_csv True [] = Inl (APIError ''Failed to save CSV file'' (KeyError ''doi''))"
  by (simp add: save_results_to_csv_def columns_of_def)

section \<open>Properties of the citation key generator\<close>

text \<open>
  The index reads of \<open>last_name_of\<close> cannot fail: \<open>re.split\<close> never returns the empty
  list (\<open>split_on_not_Nil\<close>), and a non-empty stripped name has a word.
\<close>

lemma split_on_has_piece:
  "\<exists>c \<in> set s. \<not> sep c \<Longrightarrow> \<exists>w \<in> set (split_on sep s). w \<noteq> []"
  by (induction s) (auto split: list.splits)

lemma split_ws_not_Nil: "strip x \<noteq> [] \<Longrightarrow> split_ws (strip x) \<noteq> []"
proof -
  assume "strip x \<noteq> []"
  then have "dropWhile is_space (rev (dropWhile is_space x)) \<noteq> []"
    by (simp add: strip_def)
  then have "\<not> is_space (hd (dropWhile is_space (rev (dropWhile is_space x))))"
    by (rule hd_dropWhile)
  moreover have "hd (dropWhile is_space (rev (dropWhile is_space x))) \<in> set (strip x)"
    using \<open>dropWhile is_space (rev (dropWhile is_space x)) \<noteq> []\<close> by (simp add: strip_def)
  ultimately have "\<exists>c \<in> set (strip x). \<not> is_space c" by blast
  then have "\<exists>w \<in> set (split_on is_space (strip x)). w \<noteq> []" by (rule split_on_has_piece)
  then show ?thesis by (auto simp: split_ws_def filter_empty_conv)
qed

lemma key_loop_unused: "key_loop b R k s |\<notin>| R"
  by (induction b R k s rule: key_loop.induct) (subst key_loop.simps, simp)

lemma key_loop_free: "k |\<notin>| R \<Longrightarrow> key_loop b R k s = k"
  by (subst key_loop.simps) simp

lemma key_loop_step: "k |\<in>| R \<Longrightarrow> key_loop b R k s = key_loop b R (suffixed b s) (s + 1)"
  by (subst key_loop.simps) simp


lemma clean_bibtex_key_eq:
  "clean_bibtex_key t a y d (Some R) = key_loop (base_key_of t a y) R (base_key_of t a y) 1"
  by (simp add: clean_bibtex_key_def Let_def)





section \<open>Registration of the keys\<close>

lemma is_word_digit_char: "d < 10 \<Longrightarrow> is_word (digit_char d)"
  by (simp add: is_word_def is_digit_def digit_char_def)

lemma str_nat_word: "c \<in> set (str_nat n) \<Longrightarrow> is_word c"
proof (induction n rule: str_nat.induct)
  case (1 n)
  show ?case
  proof (cases "n < 10")
    case True
    with 1 show ?thesis by (subst (asm) (2) str_nat.simps) (auto simp: is_word_digit_char)
  next
    case False
    with 1 show ?thesis by (subst (asm) (2) str_nat.simps) (auto simp: is_word_digit_char)
  qed
qed

lemma base_key_word: "c \<in> set (base_key_of t a y) \<Longrightarrow> is_word c"
  by (auto simp: base_key_of_def dest: in_set_takeD)

lemma suffixed_word:
  "\<forall>c \<in> set b. is_word c \<Longrightarrow> c \<in> set (suffixed b n) \<Longrightarrow> is_word c"
  by (auto simp: suffixed_def slice_to_def Let_def str_nat_word dest: in_set_takeD split: if_splits)

lemma key_loop_word:
  "\<forall>c \<in> set b. is_word c \<Longrightarrow> \<forall>c \<in> set k. is_word c \<Longrightarrow> \<forall>c \<in> set (key_loop b R k s). is_word c"
proof (induction b R k s rule: key_loop.induct)
  case (1 b R k s)
  show ?case
  proof (cases "k |\<in>| R")
    case True
    have "\<forall>c \<in> set (suffixed b s). is_word c" using "1.prems"(1) suffixed_word by blast
    with 1 True show ?thesis by (subst key_loop.simps) simp
  next
    case False
    with 1 show ?thesis by (subst key_loop.simps) simp
  qed
qed

lemma clean_bibtex_key_word: "c \<in> set (clean_bibtex_key t a y d (Some R)) \<Longrightarrow> is_word c"
  using key_loop_word[of "base_key_of t a y" "base_key_of t a y" R 1] base_key_word
  by (auto simp: clean_bibtex_key_eq)

lemma not_word_comma: "\<not> is_word (CHR '','')" "\<not> is_word (CHR 0x0A)"
  by (simp_all add: is_word_def is_digit_def is_upper_def is_lower_def)

lemma key_no_comma: "CHR '','' \<notin> set (clean_bibtex_key t a y d (Some R))"
  using clean_bibtex_key_word not_word_comma by blast

lemma find_at_here: "s \<noteq> [] \<Longrightarrow> take (length sub) s = sub \<Longrightarrow> find_at sub s i = int i"
  by (cases s) auto

lemma find_at_char:
  "c \<notin> set k \<Longrightarrow> find_at [c] (k @ c # rest) i = int (i + length k)"
  by (induction k arbitrary: i) auto

lemma find_at_absent: "c \<notin> set s \<Longrightarrow> find_at [c] s i = - 1"
  by (induction s arbitrary: i) auto

lemma rstrip_field_end: "rstrip_chars ('','' @ NL) (xs @ ''},'' @ NL) = xs @ ''}''"
  by (simp add: rstrip_chars_def NL_def)

lemma ends_field_Nil: "ends_field []"
  by (simp add: ends_field_def)

lemma ends_field_bib_field: "ends_field (bib_field n v)"
  unfolding ends_field_def bib_field_def
  by (intro disjI2 exI[of _ "''  '' @ n @ '' = {'' @ v"]) simp

lemma ends_field_append: "ends_field x \<Longrightarrow> ends_field y \<Longrightarrow> ends_field (x @ y)"
  unfolding ends_field_def
proof (elim disjE exE)
  fix z assume "x = z @ ''},'' @ NL" "y = []"
  then show "x @ y = [] \<or> (\<exists>z. x @ y = z @ ''},'' @ NL)" by simp
next
  fix z assume "y = z @ ''},'' @ NL"
  then have "x @ y = (x @ z) @ ''},'' @ NL" by simp
  then show "x @ y = [] \<or> (\<exists>z. x @ y = z @ ''},'' @ NL)" by blast
next
  fix z z' assume "y = z' @ ''},'' @ NL"
  then have "x @ y = (x @ z') @ ''},'' @ NL" by simp
  then show "x @ y = [] \<or> (\<exists>z. x @ y = z @ ''},'' @ NL)" by blast
qed simp

lemma ends_field_entry_fields: "ends_field (entry_fields p)"
  unfolding entry_fields_def
  by (intro ends_field_append) (simp_all add: ends_field_Nil ends_field_bib_field split: option.split)

lemma paper_to_bibtex_fields:
  assumes "entry_fields p \<noteq> []"
  shows "\<exists>F. paper_to_bibtex p (Some R) =
           ''@article{'' @ clean_bibtex_key (title p) (authors p) (year p) (doi p) (Some R)
             @ '','' @ NL @ F @ ''}'' @ NL @ ''}'' @ NL @ NL"
proof -
  from assms ends_field_entry_fields[of p] obtain F where F: "entry_fields p = F @ ''},'' @ NL"
    unfolding ends_field_def by blast
  let ?key = "clean_bibtex_key (title p) (authors p) (year p) (doi p) (Some R)"
  have "rstrip_chars ('','' @ NL) ((''@article{'' @ ?key @ '','' @ NL @ F) @ ''},'' @ NL)
          = (''@article{'' @ ?key @ '','' @ NL @ F) @ ''}''"
    by (rule rstrip_field_end)
  then have "paper_to_bibtex p (Some R) = ''@article{'' @ ?key @ '','' @ NL @ F @ ''}'' @ NL @ ''}'' @ NL @ NL"
    unfolding paper_to_bibtex_def Let_def F by simp
  then show ?thesis by blast
qed

lemma register_key_entry:
  assumes "CHR '','' \<notin> set key"
  shows "register_key (''@article{'' @ key @ '','' @ rest) R = finsert key R"
proof -
  let ?e = "''@article{'' @ key @ '','' @ rest"
  have start: "py_find ?e ''@article{'' 0 = 0"
    unfolding py_find_def by (simp add: find_at_here)
  have "drop 9 ?e = key @ CHR '','' # rest" by simp
  moreover have "9 \<le> length ?e" by simp
  ultimately have "py_find ?e '','' 9 = find_at '','' (key @ CHR '','' # rest) 9"
    unfolding py_find_def by (simp del: drop_append append.simps)
  also have "\<dots> = int (9 + length key)"
    using assms by (rule find_at_char)
  finally have fin: "py_find ?e '','' 9 = 9 + int (length key)" by simp
  have sl: "slice ?e 9 (9 + int (length key)) = key"
    by (simp add: slice_def norm_index_def nat_add_distrib)
  show ?thesis
    unfolding register_key_def start Let_def using fin sl by simp
qed

text \<open>
  C5, as the code has it: a call of the generator leaves the registry as it was and
  returns a key that is not in it. The key is registered by the caller: for a paper whose
  entry has at least one field, one round of the loop of \<open>save_bibtex\<close> appends the
  entry to the file and adds the key the generator returned, and nothing else, to the
  registry.
\<close>

theorem save_bibtex_registers_returned_key:
  assumes "entry_fields p \<noteq> []"
  shows "snd (clean_bibtex_key_call (title p) (authors p) (year p) (doi p) R) = R
       \<and> clean_bibtex_key (title p) (authors p) (year p) (doi p) (Some R) |\<notin>| R
       \<and> write_papers [p] (f, R) =
           (f @ paper_to_bibtex p (Some R),
            finsert (clean_bibtex_key (title p) (authors p) (year p) (doi p) (Some R)) R)"
proof -
  let ?key = "clean_bibtex_key (title p) (authors p) (year p) (doi p) (Some R)"
  from paper_to_bibtex_fields[OF assms] obtain F
    where e: "paper_to_bibtex p (Some R) = ''@article{'' @ ?key @ '','' @ (NL @ F @ ''}'' @ NL @ ''}'' @ NL @ NL)"
    by auto
  have "register_key (paper_to_bibtex p (Some R)) R = finsert ?key R"
    unfolding e using key_no_comma by (rule register_key_entry)
  then have "write_papers [p] (f, R) = (f @ paper_to_bibtex p (Some R), finsert ?key R)"
    by (simp add: Let_def)
  moreover have "?key |\<notin>| R"
    by (simp add: clean_bibtex_key_eq key_loop_unused)
  ultimately show ?thesis by (simp add: clean_bibtex_key_call_def)
qed

theorem save_bibtex_registers_returned_key_witness:
  "entry_fields (sample_paper (Some ''10.1/a'') ''Alpha'') \<noteq> []
   \<and> clean_bibtex_key ''Alpha'' None None (Some ''10.1/a'') (Some {||}) = ''unknownunknownalpha''
   \<and> snd (write_papers [sample_paper (Some ''10.1/a'') ''Alpha''] ([], {||})) = {|''unknownunknownalpha''|}"
proof -
  have h: "entry_fields (sample_paper (Some ''10.1/a'') ''Alpha'') \<noteq> []"
    by (simp add: entry_fields_def sample_paper_def bib_field_def)
  have b: "base_key_of ''Alpha'' None None = ''unknownunknownalpha''" by code_simp
  have k: "clean_bibtex_key ''Alpha'' None None (Some ''10.1/a'') (Some {||}) = ''unknownunknownalpha''"
    by (simp add: clean_bibtex_key_eq b key_loop_free)
  from save_bibtex_registers_returned_key [OF h, of "{||}" "[]"] h k show ?thesis
    by (simp add: sample_paper_def)
qed

text \<open>
  C5 as stated fails: after the generator has returned a key, the registry is the one it
  was called with and does not hold the key.
\<close>

theorem generator_does_not_register_counterexample:
  "clean_bibtex_key_call ''A Study of X'' (Some ''John Smith'') (Some 2021) None {|''Smith2021a''|}
     = (''Smith2021a1'', {|''Smith2021a''|})
   \<and> ''Smith2021a1'' |\<notin>| {|''Smith2021a''|}"
proof -
  have b: "base_key_of ''A Study of X'' (Some ''John Smith'') (Some 2021) = ''Smith2021a''"
    by code_simp
  have s: "suffixed ''Smith2021a'' 1 = ''Smith2021a1''" by code_simp
  have "key_loop ''Smith2021a'' {|''Smith2021a''|} ''Smith2021a'' 1
          = key_loop ''Smith2021a'' {|''Smith2021a''|} (suffixed ''Smith2021a'' 1) (1 + 1)"
    by (rule key_loop_step) simp
  also have "\<dots> = suffixed ''Smith2021a'' 1"
    by (rule key_loop_free) (unfold s, simp)
  finally have "key_loop ''Smith2021a'' {|''Smith2021a''|} ''Smith2021a'' 1 = ''Smith2021a1''"
    by (simp only: s)
  then show ?thesis by (simp add: clean_bibtex_key_call_def clean_bibtex_key_eq b)
qed

text \<open>
  The entry of a paper without any field has no comma, so the loop of \<open>save_bibtex\<close>
  finds no key in it and registers none.
\<close>

lemma fieldless_entry_not_registered:
  "clean_bibtex_key [] None None None (Some {||}) = ''unknownunknownunknown''
   \<and> write_papers [sample_paper None []] ([], {||})
       = (''@article{unknownunknownunknown'' @ NL @ ''}'' @ NL @ NL, {||})"
proof -
  have b: "base_key_of [] None None = ''unknownunknownunknown''" by code_simp
  have k: "clean_bibtex_key [] None None None (Some {||}) = ''unknownunknownunknown''"
    by (simp add: clean_bibtex_key_eq b key_loop_free)
  have e: "paper_to_bibtex (sample_paper None []) (Some {||})
             = ''@article{unknownunknownunknown'' @ NL @ ''}'' @ NL @ NL"
    by (simp add: paper_to_bibtex_def sample_paper_def k entry_fields_def rstrip_chars_def NL_def)
  have "register_key (''@article{unknownunknownunknown'' @ NL @ ''}'' @ NL @ NL) {||} = {||}"
    by (simp add: register_key_def py_find_def NL_def)
  with e k show ?thesis by (simp add: Let_def)
qed

end
